theory Spec2Isabelle
  imports Main "HOL-Library.Word" "HOL-Library.AList"
begin

section \<open>The experience store of SugaR (src/experience.cpp)\<close>

text \<open>
  The store keeps, for every position key, a singly linked chain of move records. The
  chain is modelled as the list of its nodes from the head on; the \<open>next\<close> pointer of a
  node is the rest of the list. The hash map \<open>_mainExp\<close> from keys to chain heads is an
  association list with distinct keys: its iteration order is left open by the C++
  standard, the model iterates in order of first insertion.
\<close>

subsection \<open>Records\<close>

type_synonym Key = "64 word"
type_synonym Move = int
type_synonym Depth = nat

text \<open>
  The struct \<open>ExpEntry\<close> is declared in experience.h, which is not among the sources.
  Modelled from the spec: a Stored Record is
  \<open>{ key, move, value: signed integer evaluation, depth: unsigned search depth }\<close>.
  The field \<open>value\<close> is called \<open>val\<close> here.
\<close>

record ExpEntry =
  key :: Key
  move :: Move
  val :: int
  depth :: Depth

type_synonym ExpMap = "(Key \<times> ExpEntry list) list"

subsection \<open>Helpers of experience.h\<close>

text \<open>
  Modelled from the spec: \<open>ExpEntry::compare\<close> (experience.h) is the ranking rule,
  "order by depth descending, ties broken by value descending". The result is positive
  when the first record outranks the second one.
\<close>

definition compare :: "ExpEntry \<Rightarrow> ExpEntry \<Rightarrow> int" where
  "compare a b =
     (if depth a \<noteq> depth b then int (depth a) - int (depth b) else val a - val b)"

text \<open>
  Modelled from the spec: \<open>ExpEntryEx::find\<close> (experience.h), "scan the existing chain
  for a record with the same Move". The node found is given by its position.
\<close>

fun find_entry :: "ExpEntry list \<Rightarrow> Move \<Rightarrow> nat option" where
  "find_entry [] m = None"
| "find_entry (x # xs) m =
     (if move x = m then Some 0 else map_option Suc (find_entry xs m))"

text \<open>
  Modelled from the spec: \<open>ExpEntry::merge\<close> (experience.h), "merge the two Stored
  Records' (value, depth) into the existing slot, keeping the pair with the higher
  depth; on equal depth, keep the pair with the higher value".
\<close>

definition merge :: "ExpEntry \<Rightarrow> ExpEntry \<Rightarrow> ExpEntry" where
  "merge a b =
     (if depth a < depth b \<or> (depth a = depth b \<and> val a < val b)
      then a\<lparr>val := val b, depth := depth b\<rparr> else a)"

subsection \<open>link_entry\<close>

text \<open>
  The \<open>do ... while (true)\<close> loop of \<open>link_entry\<close>. The list is the chain from the
  node \<open>expEx2\<close> on, and \<open>at_head\<close> is the test \<open>expEx2 == itr->second\<close>. A record
  that compares greater than the head becomes the new head; one that compares greater
  than a later node is linked in \<^emph>\<open>behind\<close> that node
  (\<open>expEx->next = expEx2->next; expEx2->next = expEx\<close>); at the last node the
  record is appended. The loop is entered with a node, so the first equation is
  never reached from \<open>link_entry\<close> on a chain of the map.
\<close>

fun insert_loop ::
  "(ExpEntry \<Rightarrow> ExpEntry \<Rightarrow> int) \<Rightarrow> ExpEntry \<Rightarrow> bool \<Rightarrow> ExpEntry list \<Rightarrow> ExpEntry list"
where
  "insert_loop cmp e at_head [] = [e]"
| "insert_loop cmp e at_head (x # xs) =
     (if cmp e x > 0 then (if at_head then e # x # xs else x # e # xs)
      else if xs = [] then [x, e]
      else x # insert_loop cmp e False xs)"

text \<open>
  What \<open>link_entry\<close> does to the chain of the record's key, once the key is known to
  the map: merge into the node with the same move, or run the insertion loop.
\<close>

definition link_chain ::
  "(ExpEntry \<Rightarrow> ExpEntry \<Rightarrow> int) \<Rightarrow> ExpEntry list \<Rightarrow> ExpEntry \<Rightarrow> ExpEntry list \<times> bool"
where
  "link_chain cmp c e =
     (case find_entry c (move e) of
        Some i \<Rightarrow> (c[i := merge (c ! i) e], False)
      | None \<Rightarrow> (insert_loop cmp e True c, True))"

text \<open>
  \<open>link_entry\<close>: the new map and the returned flag (\<open>true\<close> for a record that was
  linked in, \<open>false\<close> for one that was merged). The comparison \<open>cmp\<close> stands for
  \<open>ExpEntry::compare\<close>.
\<close>

definition link_entry ::
  "(ExpEntry \<Rightarrow> ExpEntry \<Rightarrow> int) \<Rightarrow> ExpMap \<Rightarrow> ExpEntry \<Rightarrow> ExpMap \<times> bool"
where
  "link_entry cmp m e =
     (case map_of m (key e) of
        None \<Rightarrow> (AList.update (key e) [e] m, True)
      | Some c \<Rightarrow>
          (let (c', r) = link_chain cmp c e in (AList.update (key e) c' m, r)))"

text \<open>A sequence of link operations, in order.\<close>

fun link_all :: "(ExpEntry \<Rightarrow> ExpEntry \<Rightarrow> int) \<Rightarrow> ExpMap \<Rightarrow> ExpEntry list \<Rightarrow> ExpMap" where
  "link_all cmp m [] = m"
| "link_all cmp m (e # es) = link_all cmp (fst (link_entry cmp m e)) es"

text \<open>\<open>probe\<close>: the chain of a key, if any.\<close>

definition probe :: "ExpMap \<Rightarrow> Key \<Rightarrow> ExpEntry list option" where
  "probe m k = map_of m k"

definition chain_of :: "ExpMap \<Rightarrow> Key \<Rightarrow> ExpEntry list" where
  "chain_of m k = (case probe m k of None \<Rightarrow> [] | Some c \<Rightarrow> c)"

subsection \<open>The ranking rule on chains\<close>

definition rank_ge :: "ExpEntry \<Rightarrow> ExpEntry \<Rightarrow> bool" where
  "rank_ge a b = (depth a > depth b \<or> (depth a = depth b \<and> val a \<ge> val b))"

fun chain_ranked :: "ExpEntry list \<Rightarrow> bool" where
  "chain_ranked [] = True"
| "chain_ranked [a] = True"
| "chain_ranked (a # b # xs) = (rank_ge a b \<and> chain_ranked (b # xs))"

subsection \<open>What holds of every map of chains\<close>


section \<open>Platform, files and streams\<close>

text \<open>
  What the file takes from headers and collaborators that are not among the sources is
  collected in one record: the sizes and the object representation of \<open>ExpEntry\<close>
  (what \<open>out.write((const char*)p, sizeof(ExpEntry))\<close> writes and
  \<open>in.read((char*)expEx, sizeof(ExpEntry))\<close> reads back), its comparison, the
  constant \<open>MIN_EXP_DEPTH\<close>, the utilities \<open>Utility::map_path\<close> and
  \<open>Utility::unquote\<close>, and the outcome of the calls into the C library and the
  operating system that the code tests: \<open>malloc\<close>, opening a file for writing,
  \<open>remove\<close> and \<open>rename\<close>. \<open>sizeof\<close> is positive on every platform.
  Two more choices are the library's and the scheduler's: the number of bytes the buffer
  of a file stream holds, and whether the worker thread of an asynchronous \<open>load\<close>
  has run to its end by the time \<open>load\<close> returns.
\<close>

record env =
  sizeof_ExpEntry :: "64 word"
  sizeof_ExpEntryEx :: "64 word"
  to_bytes :: "ExpEntry \<Rightarrow> string"
  from_bytes :: "string \<Rightarrow> ExpEntry"
  entry_compare :: "ExpEntry \<Rightarrow> ExpEntry \<Rightarrow> int"
  MIN_EXP_DEPTH :: Depth
  map_path :: "string \<Rightarrow> string"
  unquote :: "string \<Rightarrow> string"
  malloc_ok :: "64 word \<Rightarrow> bool"
  open_out_ok :: "string \<Rightarrow> bool"
  remove_ok :: "string \<Rightarrow> bool"
  rename_ok :: "string \<Rightarrow> string \<Rightarrow> bool"
  stream_buffer_size :: nat
  worker_first :: bool

text \<open>The file system: the content of every file that exists, by path.\<close>

type_synonym files = "string \<rightharpoonup> string"

definition file_exists :: "files \<Rightarrow> string \<Rightarrow> bool" where
  "file_exists fs p = (fs p \<noteq> None)"

definition remove_file :: "env \<Rightarrow> files \<Rightarrow> string \<Rightarrow> files option" where
  "remove_file E fs p =
     (if fs p \<noteq> None \<and> remove_ok E p then Some (fs(p := None)) else None)"

definition rename_file :: "env \<Rightarrow> files \<Rightarrow> string \<Rightarrow> string \<Rightarrow> files option" where
  "rename_file E fs p q =
     (if fs p \<noteq> None \<and> rename_ok E p q then Some (fs(q := fs p, p := None)) else None)"

text \<open>
  An output stream on a file opened with \<open>ios::app\<close>. The stream is buffered:
  \<open>out.write\<close> puts its bytes into the stream buffer and cannot fail while they fit
  there. Bytes reach the file, at its end, when a write does not fit into the buffer
  (the buffered bytes and the new ones are then written to the file together), when a
  seek flushes the buffer, and when the stream is closed at the end of \<open>_save\<close>.
  The failures of one stream are described by the number \<open>quota\<close> of writes to the
  file that succeed before the first failure; a failing write to the file is taken to
  leave the file as it is. A failed write to the file leaves the stream not \<open>good\<close>,
  whether it comes from \<open>out.write\<close> or from \<open>out.seekp\<close>, and on such a stream
  \<open>out.write\<close> and \<open>out.seekp\<close> do nothing. What is lost when the stream is
  closed is lost silently.
\<close>

record ostream =
  on_disk :: string
  buffered :: string
  good :: bool
  quota :: nat

definition file_write :: "ostream \<Rightarrow> string \<Rightarrow> ostream" where
  "file_write out bs =
     (if 0 < quota out
      then out\<lparr>on_disk := on_disk out @ bs, quota := quota out - 1\<rparr>
      else out\<lparr>good := False\<rparr>)"

definition stream_write :: "env \<Rightarrow> ostream \<Rightarrow> string \<Rightarrow> ostream" where
  "stream_write E out bs =
     (if \<not> good out then out
      else if length (buffered out) + length bs \<le> stream_buffer_size E
        then out\<lparr>buffered := buffered out @ bs\<rparr>
      else (file_write out (buffered out @ bs))\<lparr>buffered := []\<rparr>)"

definition stream_flush :: "ostream \<Rightarrow> ostream" where
  "stream_flush out =
     (if buffered out = [] then out else (file_write out (buffered out))\<lparr>buffered := []\<rparr>)"

definition stream_seekp :: "ostream \<Rightarrow> ostream" where
  "stream_seekp out = (if good out then stream_flush out else out)"

text \<open>The bytes of the file once the stream has been closed.\<close>

definition stream_close :: "ostream \<Rightarrow> string" where
  "stream_close out = on_disk (stream_flush out)"


definition ExperienceSignature :: string where
  "ExperienceSignature = ''SugaR''"

definition ExperienceSignatureLength :: "64 word" where
  "ExperienceSignatureLength = of_nat (length ExperienceSignature)"

section \<open>The class ExperienceData\<close>

text \<open>
  The fields of \<open>ExperienceData\<close>, without the leading underscore of the source. A
  pending entry is a pointer that the save loops test for null, hence the \<open>option\<close>.
  \<open>loaderThread\<close> holds the file name the worker thread was started with, until the
  worker has finished. The vector \<open>_expExData\<close> of buffers to free is left out. The
  atomic flag \<open>_abortLoading\<close> is written by the thread that destroys the store while
  the worker reads it: the worker's reads are given to \<open>do_load\<close> as the function
  \<open>flag\<close>, the value seen by the read number \<open>i\<close> (counted from 0).
\<close>

record ExperienceData =
  filename :: string
  mainExp :: ExpMap
  newPvExp :: "ExpEntry option list"
  newMultiPvExp :: "ExpEntry option list"
  loading :: bool
  loadingResult :: bool
  loaderThread :: "string option"

definition new_ExperienceData :: ExperienceData where
  "new_ExperienceData =
     \<lparr>filename = [], mainExp = [], newPvExp = [], newMultiPvExp = [],
      loading = False, loadingResult = False, loaderThread = None\<rparr>"

definition clear_new_exp :: "ExperienceData \<Rightarrow> ExperienceData" where
  "clear_new_exp st = st\<lparr>newPvExp := [], newMultiPvExp := []\<rparr>"

definition has_new_exp :: "ExperienceData \<Rightarrow> bool" where
  "has_new_exp st = (length (newPvExp st) \<noteq> 0 \<or> length (newMultiPvExp st) \<noteq> 0)"

definition add_pv_experience ::
  "Key \<Rightarrow> Move \<Rightarrow> int \<Rightarrow> Depth \<Rightarrow> ExperienceData \<Rightarrow> ExperienceData" where
  "add_pv_experience k m v d st =
     st\<lparr>newPvExp := newPvExp st @ [Some \<lparr>key = k, move = m, val = v, depth = d\<rparr>]\<rparr>"

definition add_multipv_experience ::
  "Key \<Rightarrow> Move \<Rightarrow> int \<Rightarrow> Depth \<Rightarrow> ExperienceData \<Rightarrow> ExperienceData" where
  "add_multipv_experience k m v d st =
     st\<lparr>newMultiPvExp := newMultiPvExp st @ [Some \<lparr>key = k, move = m, val = v, depth = d\<rparr>]\<rparr>"

subsection \<open>Loading\<close>

text \<open>The places where \<open>_load\<close> returns \<open>false\<close>, by the message printed there.\<close>

datatype load_error =
    Unreadable
  | Empty
  | Corrupt
  | AllocationFailure
  | ReadFailure
  | SignatureMismatch
  | Aborted

text \<open>
  The loop \<open>for (i = 0; i < expCount; i++)\<close> of \<open>_load\<close>. The first number is
  \<open>expCount - i\<close>, the second is \<open>i\<close>, \<open>inp\<close> is the part of the file not read yet,
  \<open>dup\<close> is \<open>duplicateMoves\<close>. The result holds the error of a failed read, the map,
  the duplicates counted and the number of reads of the abort flag made so far. A read
  fails when the file has fewer bytes left than asked for.
\<close>

fun load_loop ::
  "env \<Rightarrow> (nat \<Rightarrow> bool) \<Rightarrow> nat \<Rightarrow> nat \<Rightarrow> string \<Rightarrow> ExpMap \<Rightarrow> nat \<Rightarrow>
   load_error option \<times> ExpMap \<times> nat \<times> nat"
where
  "load_loop E flag 0 i inp m dup = (None, m, dup, i)"
| "load_loop E flag (Suc n) i inp m dup =
     (if flag i then (None, m, dup, Suc i)
      else if length inp < unat (sizeof_ExpEntry E) then (Some ReadFailure, m, dup, Suc i)
      else
        let expEx = from_bytes E (take (unat (sizeof_ExpEntry E)) inp);
            (m', linked) = link_entry (entry_compare E) m expEx
        in load_loop E flag n (Suc i) (drop (unat (sizeof_ExpEntry E)) inp) m'
             (if linked then dup else Suc dup))"

text \<open>
  \<open>_load\<close>. The sizes are \<open>size_t\<close> values, 64-bit words: the subtraction of the
  signature length wraps around for a file shorter than the signature. The result is
  the error, or the number of duplicate moves of the statistics line on success.
\<close>

definition do_load ::
  "env \<Rightarrow> (nat \<Rightarrow> bool) \<Rightarrow> string \<Rightarrow> ExperienceData \<Rightarrow> files \<Rightarrow>
   (load_error + nat) \<times> ExperienceData"
where
  "do_load E flag fn st fs =
     (case fs (map_path E fn) of
        None \<Rightarrow> (Inl Unreadable, st)
      | Some bytes \<Rightarrow>
          let inSize = (of_nat (length bytes) :: 64 word) in
          if inSize = 0 then (Inl Empty, st)
          else
            let expDataSize = inSize - ExperienceSignatureLength;
                expCount = expDataSize div sizeof_ExpEntry E
            in
            if expCount * sizeof_ExpEntry E \<noteq> expDataSize then (Inl Corrupt, st)
            else if \<not> malloc_ok E ExperienceSignatureLength then (Inl AllocationFailure, st)
            else if length bytes < unat ExperienceSignatureLength then (Inl ReadFailure, st)
            else if take (unat ExperienceSignatureLength) bytes \<noteq> ExperienceSignature
              then (Inl SignatureMismatch, st)
            else if \<not> malloc_ok E (expCount * sizeof_ExpEntryEx E)
              then (Inl AllocationFailure, st)
            else
              (case load_loop E flag (unat expCount) 0
                      (drop (unat ExperienceSignatureLength) bytes) (mainExp st) 0 of
                 (Some err, m, dup, reads) \<Rightarrow> (Inl err, st\<lparr>mainExp := m\<rparr>)
               | (None, m, dup, reads) \<Rightarrow>
                   if flag reads then (Inl Aborted, st\<lparr>mainExp := m\<rparr>)
                   else (Inr dup, st\<lparr>mainExp := m\<rparr>)))"

text \<open>
  The worker thread of \<open>load\<close>, run to its end: it loads, stores the result and
  resets \<open>_loading\<close>.
\<close>

definition run_worker ::
  "env \<Rightarrow> (nat \<Rightarrow> bool) \<Rightarrow> ExperienceData \<Rightarrow> files \<Rightarrow> ExperienceData" where
  "run_worker E flag st fs =
     (case loaderThread st of
        None \<Rightarrow> st
      | Some fn \<Rightarrow>
          let (r, st') = do_load E flag fn st fs;
              loadingResult' = (case r of Inl err \<Rightarrow> False | Inr dup \<Rightarrow> True)
          in st'\<lparr>loadingResult := loadingResult', loading := False, loaderThread := None\<rparr>)"

definition loading_result :: "ExperienceData \<Rightarrow> bool" where
  "loading_result st = loadingResult st"

definition wait_for_load_finished ::
  "env \<Rightarrow> (nat \<Rightarrow> bool) \<Rightarrow> ExperienceData \<Rightarrow> files \<Rightarrow> bool \<times> ExperienceData" where
  "wait_for_load_finished E flag st fs =
     (let st' = (if loading st then run_worker E flag st fs else st)
      in (loading_result st', st'))"

text \<open>
  The store as \<open>load\<close> leaves it to the worker thread it starts: the file name
  set, the stored result reset, \<open>_loading\<close> set.
\<close>

definition start_worker :: "string \<Rightarrow> ExperienceData \<Rightarrow> ExperienceData" where
  "start_worker fn st =
     st\<lparr>filename := fn, loadingResult := False, loading := True, loaderThread := Some fn\<rparr>"

text \<open>
  \<open>load\<close>. The worker runs beside the caller. Every other operation on the store
  waits for it first, so all the caller can tell when an asynchronous \<open>load\<close>
  returns is whether the worker has stored its result already: \<open>worker_first\<close> says
  so. A worker that has not finished by then finishes when it is waited for.
\<close>

definition load ::
  "env \<Rightarrow> (nat \<Rightarrow> bool) \<Rightarrow> string \<Rightarrow> bool \<Rightarrow> ExperienceData \<Rightarrow> files \<Rightarrow>
   bool \<times> ExperienceData"
where
  "load E flag fn synchronous st fs =
     (let st1 = snd (wait_for_load_finished E flag st fs);
          st3 = start_worker fn st1
      in if synchronous then wait_for_load_finished E flag st3 fs
         else (True, if worker_first E then run_worker E flag st3 fs else st3))"

text \<open>Whether a result of \<open>_load\<close> is the value \<open>true\<close>.\<close>

definition load_ok :: "load_error + nat \<Rightarrow> bool" where
  "load_ok r = (case r of Inl err \<Rightarrow> False | Inr dup \<Rightarrow> True)"

subsection \<open>Saving\<close>

text \<open>The inner \<open>while (p)\<close> loop of a compacting save: no write is checked.\<close>

fun save_chain :: "env \<Rightarrow> ostream \<Rightarrow> nat \<Rightarrow> ExpEntry list \<Rightarrow> ostream \<times> nat" where
  "save_chain E out allMoves [] = (out, allMoves)"
| "save_chain E out allMoves (p # ps) =
     (if depth p \<ge> MIN_EXP_DEPTH E
      then save_chain E (stream_write E out (to_bytes E p)) (Suc allMoves) ps
      else save_chain E out allMoves ps)"

text \<open>The loop \<open>for (const auto& x : _mainExp)\<close>.\<close>

fun save_all :: "env \<Rightarrow> ostream \<Rightarrow> nat \<Rightarrow> nat \<Rightarrow> ExpMap \<Rightarrow> ostream \<times> nat \<times> nat" where
  "save_all E out allMoves allPositions [] = (out, allMoves, allPositions)"
| "save_all E out allMoves allPositions (x # xs) =
     (let (out', allMoves') = save_chain E out allMoves (snd x)
      in save_all E out' allMoves' (Suc allPositions) xs)"

text \<open>
  The two loops over the pending entries: a stream that is not good after the write of
  an entry ends the save at once. The flag of the result is \<open>False\<close> where the
  source returns \<open>false\<close>.
\<close>

fun save_new :: "env \<Rightarrow> ostream \<Rightarrow> nat \<Rightarrow> ExpEntry option list \<Rightarrow> bool \<times> ostream \<times> nat" where
  "save_new E out n [] = (True, out, n)"
| "save_new E out n (None # es) = save_new E out n es"
| "save_new E out n (Some e # es) =
     (if depth e < MIN_EXP_DEPTH E then save_new E out n es
      else
        let out' = stream_write E out (to_bytes E e)
        in if \<not> good out' then (False, out', n) else save_new E out' (Suc n) es)"

text \<open>
  \<open>_save\<close>, on a stream whose first \<open>q\<close> writes to the file succeed. Opening
  the file for appending creates it when it does not exist. After the signature,
  \<open>out.seekp(ios::end)\<close> flushes the buffer. The stream is closed wherever the
  function returns. The result is the returned flag, the store and the file system.
\<close>

definition do_save ::
  "env \<Rightarrow> nat \<Rightarrow> string \<Rightarrow> bool \<Rightarrow> ExperienceData \<Rightarrow> files \<Rightarrow>
   bool \<times> ExperienceData \<times> files"
where
  "do_save E q fn saveAll st fs =
     (let p = map_path E fn in
      if \<not> open_out_ok E p then (False, st, fs)
      else
        let out0 = \<lparr>on_disk = (case fs p of None \<Rightarrow> [] | Some c \<Rightarrow> c), buffered = [],
                      good = True, quota = q\<rparr>;
            len = (of_nat (length (on_disk out0)) :: 64 word);
            out1 = (if len = 0 then stream_write E out0 ExperienceSignature else out0)
        in
        if len = 0 \<and> \<not> good out1 then (False, st, fs(p \<mapsto> stream_close out1))
        else
          let out2 = (if saveAll then fst (save_all E (stream_seekp out1) 0 0 (mainExp st))
                      else stream_seekp out1);
              (ok3, out3, newPvExpCount) = save_new E out2 0 (newPvExp st)
          in
          if \<not> ok3 then (False, st, fs(p \<mapsto> stream_close out3))
          else
            let (ok4, out4, newMultiPvExpCount) = save_new E out3 0 (newMultiPvExp st)
            in
            if \<not> ok4 then (False, st, fs(p \<mapsto> stream_close out4))
            else (True, clear_new_exp st, fs(p \<mapsto> stream_close out4)))"

text \<open>
  \<open>save\<close>: wait for the loader, return when there is nothing to write, move the
  file to the backup name for a compacting save, save, and move the backup back when
  the save has returned \<open>false\<close>. An empty \<open>backupExpFilename\<close> means no backup.
\<close>

definition save ::
  "env \<Rightarrow> (nat \<Rightarrow> bool) \<Rightarrow> nat \<Rightarrow> string \<Rightarrow> bool \<Rightarrow> ExperienceData \<Rightarrow> files \<Rightarrow>
   ExperienceData \<times> files"
where
  "save E flag q fn saveAll st0 fs =
     (let st = snd (wait_for_load_finished E flag st0 fs) in
      if \<not> has_new_exp st \<and> (\<not> saveAll \<or> length (mainExp st) = 0) then (st, fs)
      else
        let expFilename = map_path E fn;
            (backupExpFilename, fs1) =
              (if saveAll \<and> file_exists fs expFilename then
                 let b0 = expFilename @ ''.bak'';
                     (b1, fsa) =
                       (if file_exists fs b0 then
                          (case remove_file E fs b0 of
                             None \<Rightarrow> ([], fs)
                           | Some fs' \<Rightarrow> (b0, fs'))
                        else (b0, fs))
                 in
                 if b1 \<noteq> [] then
                   (case rename_file E fsa expFilename b1 of
                      None \<Rightarrow> ([], fsa)
                    | Some fs' \<Rightarrow> (b1, fs'))
                 else (b1, fsa)
               else ([], fs));
            (ok, st', fs2) = do_save E q fn saveAll st fs1
        in
        if \<not> ok \<and> backupExpFilename \<noteq> [] then
          (case rename_file E fs2 backupExpFilename expFilename of
             None \<Rightarrow> (st', fs2)
           | Some fs' \<Rightarrow> (st', fs'))
        else (st', fs2))"

subsection \<open>The defrag command\<close>

datatype defrag_outcome = IncorrectCommand | LoadFailed | Defragmented

text \<open>
  \<open>defrag(argc, argv)\<close>: \<open>argc\<close> is the length of \<open>argv\<close>, whose first two
  entries are the program name and the word \<open>defrag\<close>. The store is a local object
  that nobody else destroys while it loads, so its abort flag is never seen set.
\<close>

definition defrag :: "env \<Rightarrow> nat \<Rightarrow> string list \<Rightarrow> files \<Rightarrow> defrag_outcome \<times> files" where
  "defrag E q argv fs =
     (if length argv \<noteq> 3 then (IncorrectCommand, fs)
      else
        let fn0 = map_path E (unquote E (argv ! 2));
            fn1 = map_path E fn0;
            (ok, ex) = load E (\<lambda>i. False) fn1 True new_ExperienceData fs
        in
        if \<not> ok then (LoadFailed, fs)
        else (Defragmented, snd (save E (\<lambda>i. False) q fn1 True ex fs)))"

section \<open>A sample platform\<close>

text \<open>
  One platform, to run the definitions on: records of 20 bytes without padding (the key
  in 8 bytes, then move, value and depth in 4 bytes each, little-endian, the signed
  fields in two's complement), the ranking rule as comparison, a minimum depth of 4,
  paths taken as they are, a C library and operating system whose calls succeed, a
  stream buffer of 8192 bytes, and a worker thread that has not finished when an
  asynchronous \<open>load\<close> returns.
\<close>

definition byte :: "nat \<Rightarrow> nat \<Rightarrow> char" where
  "byte i n = char_of (n div 256 ^ i)"

definition le4 :: "nat \<Rightarrow> string" where
  "le4 n = [byte 0 n, byte 1 n, byte 2 n, byte 3 n]"

definition le8 :: "nat \<Rightarrow> string" where
  "le8 n = le4 n @ le4 (n div 2 ^ 32)"

definition le_value :: "string \<Rightarrow> nat" where
  "le_value bs = foldr (\<lambda>c n. of_char c + 256 * n) bs 0"

definition to_signed :: "nat \<Rightarrow> int" where
  "to_signed n = (if n < 2 ^ 31 then int n else int n - 2 ^ 32)"

definition entry_bytes :: "ExpEntry \<Rightarrow> string" where
  "entry_bytes e =
     le8 (unat (key e)) @ le4 (nat (move e mod 2 ^ 32)) @
     le4 (nat (val e mod 2 ^ 32)) @ le4 (depth e)"

definition bytes_entry :: "string \<Rightarrow> ExpEntry" where
  "bytes_entry bs =
     \<lparr>key = of_nat (le_value (take 8 bs)),
      move = to_signed (le_value (take 4 (drop 8 bs))),
      val = to_signed (le_value (take 4 (drop 12 bs))),
      depth = le_value (take 4 (drop 16 bs))\<rparr>"

definition sample_env :: env where
  "sample_env =
     \<lparr>sizeof_ExpEntry = 20, sizeof_ExpEntryEx = 28,
      to_bytes = entry_bytes, from_bytes = bytes_entry,
      entry_compare = compare, MIN_EXP_DEPTH = 4,
      map_path = (\<lambda>p. p), unquote = (\<lambda>p. p),
      malloc_ok = (\<lambda>n. True), open_out_ok = (\<lambda>p. True),
      remove_ok = (\<lambda>p. True), rename_ok = (\<lambda>p q. True),
      stream_buffer_size = 8192, worker_first = False\<rparr>"

text \<open>An abort flag that is never seen set.\<close>

definition never_set :: "nat \<Rightarrow> bool" where
  "never_set i = False"

section \<open>Properties of link_entry\<close>

lemmas codec_defs =
  entry_bytes_def bytes_entry_def le8_def le4_def byte_def le_value_def to_signed_def


lemma find_entry_None: "find_entry c m = None \<longleftrightarrow> m \<notin> move ` set c"
  by (induction c) auto

lemma find_entry_Some: "find_entry c m = Some i \<Longrightarrow> i < length c \<and> move (c ! i) = m"
  by (induction c arbitrary: i) (auto split: if_splits)

lemma move_merge: "move (merge a b) = move a"
  by (simp add: merge_def)


lemma map_move_merge_at:
  "i < length c \<Longrightarrow> map move (c[i := merge (c ! i) e]) = map move c"
  by (simp add: map_update move_merge list_update_same_conv)

lemma set_insert_loop: "set (insert_loop cmp e h c) = insert e (set c)"
  by (induction c arbitrary: h) auto

lemma distinct_insert_loop:
  "distinct (map move c) \<Longrightarrow> move e \<notin> move ` set c \<Longrightarrow>
   distinct (map move (insert_loop cmp e h c))"
  by (induction c arbitrary: h) (auto simp: set_insert_loop)

lemma distinct_link_chain:
  "distinct (map move c) \<Longrightarrow> distinct (map move (fst (link_chain cmp c e)))"
  by (auto simp: link_chain_def map_move_merge_at find_entry_None distinct_insert_loop
      dest: find_entry_Some split: option.splits)

lemma link_chain_Nil: "link_chain cmp [] e = ([e], True)"
  by (simp add: link_chain_def)

lemma chain_of_link_entry:
  "chain_of (fst (link_entry cmp m e)) k =
     (if k = key e then fst (link_chain cmp (chain_of m k) e) else chain_of m k)"
  by (auto simp: link_entry_def chain_of_def probe_def update_conv' link_chain_Nil
      split: option.splits prod.splits)

lemma distinct_link_all:
  "distinct (map move (chain_of m k)) \<Longrightarrow>
   distinct (map move (chain_of (link_all cmp m es) k))"
proof (induction es arbitrary: m)
  case Nil
  then show ?case by simp
next
  case (Cons e es)
  have "distinct (map move (chain_of (fst (link_entry cmp m e)) k))"
    using Cons.prems distinct_link_chain [of "chain_of m k" cmp e]
    by (auto simp: chain_of_link_entry)
  then show ?case using Cons.IH by simp
qed

text \<open>
  Claim C1. Every chain stays sorted by the ranking rule under link operations. The
  code does not keep this: link three records of one key with depths 10, 5 and 7, in
  this order. The third record outranks the second node, which is not the head, and
  \<open>link_entry\<close> links it in behind that node. Whatever \<open>ExpEntry::compare\<close>
  computes, the resulting chain has an adjacent pair that violates the rule.
\<close>

theorem link_entry_unranked:
  "\<not> chain_ranked (chain_of (link_all cmp []
       [\<lparr>key = 1, move = 1, val = 0, depth = 10\<rparr>,
        \<lparr>key = 1, move = 2, val = 0, depth = 5\<rparr>,
        \<lparr>key = 1, move = 3, val = 0, depth = 7\<rparr>]) 1)"
  by (simp add: link_entry_def link_chain_def chain_of_def probe_def rank_ge_def)

text \<open>
  Claim C6. After any sequence of link operations on the empty map, no chain holds two
  records with the same move; linking one record twice gives one chain of length 1, the
  first link returning \<open>true\<close> (inserted) and the second \<open>false\<close> (merged).
\<close>

theorem link_entry_no_duplicate_moves:
  "distinct (map move (chain_of (link_all cmp [] es) k)) \<and>
   link_entry cmp [] r = ([(key r, [r])], True) \<and>
   link_entry cmp [(key r, [r])] r = ([(key r, [r])], False)"
proof -
  have "distinct (map move (chain_of (link_all cmp [] es) k))"
    by (rule distinct_link_all) (simp add: chain_of_def probe_def)
  moreover have "link_entry cmp [] r = ([(key r, [r])], True)"
    by (simp add: link_entry_def)
  moreover have "link_entry cmp [(key r, [r])] r = ([(key r, [r])], False)"
    by (simp add: link_entry_def link_chain_def merge_def)
  ultimately show ?thesis by simp
qed

theorem link_entry_no_duplicate_moves_witness:
  "distinct (map move (chain_of (link_all compare []
      [\<lparr>key = 1, move = 1, val = 50, depth = 10\<rparr>,
       \<lparr>key = 1, move = 1, val = 80, depth = 10\<rparr>,
       \<lparr>key = 1, move = 2, val = 999, depth = 5\<rparr>]) 1)) \<and>
   chain_of (link_all compare []
      [\<lparr>key = 1, move = 1, val = 50, depth = 10\<rparr>,
       \<lparr>key = 1, move = 1, val = 80, depth = 10\<rparr>,
       \<lparr>key = 1, move = 2, val = 999, depth = 5\<rparr>]) 1 =
     [\<lparr>key = 1, move = 1, val = 80, depth = 10\<rparr>,
      \<lparr>key = 1, move = 2, val = 999, depth = 5\<rparr>]"
  using link_entry_no_duplicate_moves [of compare
      "[\<lparr>key = 1, move = 1, val = 50, depth = 10\<rparr>,
        \<lparr>key = 1, move = 1, val = 80, depth = 10\<rparr>,
        \<lparr>key = 1, move = 2, val = 999, depth = 5\<rparr>]" 1]
  by (simp add: link_entry_def link_chain_def chain_of_def probe_def merge_def compare_def)

section \<open>Properties of loading\<close>

lemma sig_len: "length ExperienceSignature = 5"
  by (simp add: ExperienceSignature_def)

lemma sig_len_word: "ExperienceSignatureLength = 5"
  by (simp add: ExperienceSignatureLength_def ExperienceSignature_def)

lemma unat_of_nat64: "n < 2 ^ 64 \<Longrightarrow> unat (of_nat n :: 64 word) = n"
  by (simp add: unat_of_nat)

lemma load_loop_all:
  assumes "\<forall>r\<in>set recs. from_bytes E (to_bytes E r) = r \<and>
             length (to_bytes E r) = unat (sizeof_ExpEntry E)"
    and "\<forall>j. i \<le> j \<and> j < i + length recs \<longrightarrow> \<not> flag j"
  shows "\<exists>d'. load_loop E flag (length recs) i (concat (map (to_bytes E) recs) @ rest) m d =
           (None, link_all (entry_compare E) m recs, d', i + length recs)"
  using assms
proof (induction recs arbitrary: i m d)
  case Nil
  then show ?case by simp
next
  case (Cons r recs)
  obtain m' linked where l: "link_entry (entry_compare E) m r = (m', linked)"
    by (cases "link_entry (entry_compare E) m r") auto
  have c: "from_bytes E (to_bytes E r) = r" "length (to_bytes E r) = unat (sizeof_ExpEntry E)"
    using Cons.prems(1) by auto
  have f: "\<not> flag i" using Cons.prems(2) by auto
  have "\<exists>d'. load_loop E flag (length recs) (Suc i) (concat (map (to_bytes E) recs) @ rest) m'
            (if linked then d else Suc d) =
          (None, link_all (entry_compare E) m' recs, d', Suc i + length recs)"
    using Cons.prems by (intro Cons.IH) auto
  then show ?case using l c f by (simp add: Let_def)
qed

lemma load_loop_abort:
  assumes "\<forall>r\<in>set pre. from_bytes E (to_bytes E r) = r \<and>
             length (to_bytes E r) = unat (sizeof_ExpEntry E)"
    and "\<forall>j. i \<le> j \<and> j < i + length pre \<longrightarrow> \<not> flag j"
    and "flag (i + length pre)"
  shows "\<exists>d'. load_loop E flag (length pre + Suc k) i (concat (map (to_bytes E) pre) @ rest) m d =
           (None, link_all (entry_compare E) m pre, d', Suc (i + length pre))"
  using assms
proof (induction pre arbitrary: i m d)
  case Nil
  then show ?case by simp
next
  case (Cons r pre)
  obtain m' linked where l: "link_entry (entry_compare E) m r = (m', linked)"
    by (cases "link_entry (entry_compare E) m r") auto
  have c: "from_bytes E (to_bytes E r) = r" "length (to_bytes E r) = unat (sizeof_ExpEntry E)"
    using Cons.prems(1) by auto
  have f: "\<not> flag i" using Cons.prems(2) by auto
  have "\<exists>d'. load_loop E flag (length pre + Suc k) (Suc i) (concat (map (to_bytes E) pre) @ rest) m'
            (if linked then d else Suc d) =
          (None, link_all (entry_compare E) m' pre, d', Suc (Suc i + length pre))"
    using Cons.prems by (intro Cons.IH) auto
  then show ?case using l c f by (simp add: Let_def)
qed

lemma length_payload:
  assumes "\<forall>r\<in>set recs. length (to_bytes E r) = n"
  shows "length (concat (map (to_bytes E) recs)) = length recs * n"
  using assms by (induction recs) auto

lemma expCount_valid:
  fixes s :: "64 word"
  assumes "s \<noteq> 0" "5 + l * unat s < 2 ^ 64"
  shows "(of_nat (5 + l * unat s) :: 64 word) \<noteq> 0"
    and "((of_nat (5 + l * unat s) :: 64 word) - 5) div s = of_nat l"
    and "(of_nat l :: 64 word) * s = of_nat (5 + l * unat s) - 5"
    and "unat (of_nat l :: 64 word) = l"
proof -
  have s0: "0 < unat s" using assms(1) by (simp add: unat_gt_0)
  have ls: "l * unat s < 2 ^ 64" using assms(2) by simp
  have l: "l < 2 ^ 64"
  proof -
    have "l * 1 \<le> l * unat s" using s0 by (intro mult_le_mono2) simp
    then have "l \<le> l * unat s" by (simp only: mult_1_right)
    then show ?thesis using ls by (rule le_less_trans)
  qed
  show u: "unat (of_nat l :: 64 word) = l" using l by (rule unat_of_nat64)
  show "(of_nat (5 + l * unat s) :: 64 word) \<noteq> 0"
    using unat_of_nat64 [OF assms(2)] by auto
  have d: "(of_nat (5 + l * unat s) :: 64 word) - 5 = of_nat l * s"
    by simp
  show "(of_nat l :: 64 word) * s = of_nat (5 + l * unat s) - 5"
    using d by simp
  have "unat ((of_nat l :: 64 word) * s) = l * unat s"
    using ls u by (simp add: unat_mult_lem [THEN iffD1])
  then have "unat (((of_nat l :: 64 word) * s) div s) = l"
    using s0 by (simp add: unat_div)
  then have "((of_nat l :: 64 word) * s) div s = of_nat l"
    using u by (simp add: word_unat_eq_iff)
  then show "((of_nat (5 + l * unat s) :: 64 word) - 5) div s = of_nat l"
    using d by simp
qed


lemma do_load_valid:
  assumes target: "fs (map_path E fn) = Some (ExperienceSignature @ concat (map (to_bytes E) recs))"
    and len: "\<forall>r\<in>set recs. length (to_bytes E r) = unat (sizeof_ExpEntry E)"
    and pos: "sizeof_ExpEntry E \<noteq> 0"
    and small: "5 + length recs * unat (sizeof_ExpEntry E) < 2 ^ 64"
    and alloc: "malloc_ok E ExperienceSignatureLength"
      "malloc_ok E (of_nat (length recs) * sizeof_ExpEntryEx E)"
  shows "do_load E flag fn st fs =
     (case load_loop E flag (length recs) 0 (concat (map (to_bytes E) recs)) (mainExp st) 0 of
        (Some err, m, dup, reads) \<Rightarrow> (Inl err, st\<lparr>mainExp := m\<rparr>)
      | (None, m, dup, reads) \<Rightarrow>
          if flag reads then (Inl Aborted, st\<lparr>mainExp := m\<rparr>) else (Inr dup, st\<lparr>mainExp := m\<rparr>))"
proof -
  define bytes where "bytes = ExperienceSignature @ concat (map (to_bytes E) recs)"
  define inSize :: "64 word" where "inSize = of_nat (length bytes)"
  have n: "length bytes = 5 + length recs * unat (sizeof_ExpEntry E)"
    using length_payload [OF len] by (simp add: sig_len bytes_def)
  note e = expCount_valid [OF pos small]
  have 1: "inSize \<noteq> 0"
    unfolding inSize_def n by (rule e(1))
  have 2: "(inSize - ExperienceSignatureLength) div sizeof_ExpEntry E = of_nat (length recs)"
    unfolding inSize_def n sig_len_word by (rule e(2))
  have 3: "of_nat (length recs) * sizeof_ExpEntry E = inSize - ExperienceSignatureLength"
    unfolding inSize_def n sig_len_word by (rule e(3))
  have 5: "\<not> length bytes < unat ExperienceSignatureLength"
    by (simp add: n sig_len_word)
  have 6: "take (unat ExperienceSignatureLength) bytes = ExperienceSignature"
    "drop (unat ExperienceSignatureLength) bytes = concat (map (to_bytes E) recs)"
    by (simp_all add: bytes_def sig_len_word sig_len)
  have t: "fs (map_path E fn) = Some bytes"
    using target by (simp add: bytes_def)
  show ?thesis
    unfolding do_load_def Let_def t option.case inSize_def [symmetric] 2
    using 1 3 5 6 alloc e(4) by simp
qed


lemma word_div_mult_eq_iff:
  fixes a b :: "64 word"
  shows "a div b * b = a \<longleftrightarrow> unat a mod unat b = 0"
proof -
  have "a div b * b = a \<longleftrightarrow> a mod b = 0"
    by (metis add.right_neutral add_diff_cancel_left' div_mult_mod_eq)
  also have "\<dots> \<longleftrightarrow> unat (a mod b) = 0"
    by (simp add: unat_eq_0)
  also have "\<dots> \<longleftrightarrow> unat a mod unat b = 0"
    by (simp add: unat_mod)
  finally show ?thesis .
qed

lemma payload_size:
  assumes "5 \<le> n" "n < 2 ^ 64"
  shows "unat ((of_nat n :: 64 word) - 5) = n - 5"
proof -
  have "(of_nat n :: 64 word) - 5 = of_nat (n - 5)"
    using assms(1) by simp
  moreover have "n - 5 < 2 ^ 64" using assms(2) by simp
  ultimately show ?thesis by (simp add: unat_of_nat64)
qed

lemma size_nonzero:
  assumes "0 < n" "n < 2 ^ 64"
  shows "(of_nat n :: 64 word) \<noteq> 0"
  using assms unat_of_nat64 [of n] by auto


lemma do_load_corrupt:
  assumes target: "fs (map_path E fn) = Some bytes"
    and long: "length ExperienceSignature \<le> length bytes"
    and small: "length bytes < 2 ^ 64"
    and odd: "(length bytes - length ExperienceSignature) mod unat (sizeof_ExpEntry E) \<noteq> 0"
  shows "do_load E flag fn st fs = (Inl Corrupt, st)"
proof -
  have n5: "5 \<le> length bytes" using long by (simp add: sig_len)
  have nz: "(of_nat (length bytes) :: 64 word) \<noteq> 0"
    using n5 small by (intro size_nonzero) auto
  have "unat ((of_nat (length bytes) :: 64 word) - 5) mod unat (sizeof_ExpEntry E) \<noteq> 0"
    using odd by (simp add: payload_size [OF n5 small] sig_len)
  then have "((of_nat (length bytes) :: 64 word) - 5) div sizeof_ExpEntry E * sizeof_ExpEntry E
      \<noteq> (of_nat (length bytes) :: 64 word) - 5"
    by (simp add: word_div_mult_eq_iff)
  then show ?thesis
    using target nz by (simp add: do_load_def Let_def sig_len_word)
qed

lemma load_synchronous_idle:
  assumes "\<not> loading st"
  shows "load E flag fn True st fs =
     (case do_load E flag fn
             (st\<lparr>filename := fn, loadingResult := False, loading := True,
                 loaderThread := Some fn\<rparr>) fs of
        (r, st') \<Rightarrow>
          ((case r of Inl err \<Rightarrow> False | Inr dup \<Rightarrow> True),
           st'\<lparr>loadingResult := (case r of Inl err \<Rightarrow> False | Inr dup \<Rightarrow> True),
               loading := False, loaderThread := None\<rparr>))"
  using assms
  by (simp add: load_def wait_for_load_finished_def run_worker_def loading_result_def Let_def
      start_worker_def split: prod.splits)

text \<open>
  Claim C8. A file that holds the signature length or more, and whose length after the
  signature is not a multiple of the record size, is rejected as corrupt by \<open>_load\<close>,
  whatever its first bytes are, and no record is linked: the store is returned as it was.
  A synchronous \<open>load\<close> on an idle store then returns \<open>false\<close> and leaves the map
  of chains unchanged.
\<close>

theorem load_rejects_corrupt:
  assumes "fs (map_path E fn) = Some bytes"
    and "length ExperienceSignature \<le> length bytes"
    and "length bytes < 2 ^ 64"
    and "(length bytes - length ExperienceSignature) mod unat (sizeof_ExpEntry E) \<noteq> 0"
    and "\<not> loading st"
  shows "do_load E flag fn st fs = (Inl Corrupt, st) \<and>
         fst (load E flag fn True st fs) = False \<and>
         mainExp (snd (load E flag fn True st fs)) = mainExp st"
proof -
  have "do_load E flag fn st' fs = (Inl Corrupt, st')" for st'
    using assms(1-4) by (rule do_load_corrupt)
  then show ?thesis
    using assms(5) by (simp add: load_synchronous_idle)
qed

theorem load_rejects_corrupt_witness:
  "do_load sample_env never_set ''SugaR.exp'' new_ExperienceData
     [''SugaR.exp'' \<mapsto> ''SugaRabc''] = (Inl Corrupt, new_ExperienceData) \<and>
   fst (load sample_env never_set ''SugaR.exp'' True new_ExperienceData
     [''SugaR.exp'' \<mapsto> ''SugaRabc'']) = False \<and>
   mainExp (snd (load sample_env never_set ''SugaR.exp'' True new_ExperienceData
     [''SugaR.exp'' \<mapsto> ''SugaRabc''])) = []"
  using load_rejects_corrupt [of "[''SugaR.exp'' \<mapsto> ''SugaRabc'']" sample_env
      "''SugaR.exp''" "''SugaRabc''" new_ExperienceData never_set]
  by (simp add: sample_env_def sig_len new_ExperienceData_def)

text \<open>
  Claim C4, as stated: a file that is exactly the signature is rejected as empty. The
  code accepts it: the test for an empty file is \<open>inSize == 0\<close>, the size check
  passes with a record count of zero, and the load returns \<open>true\<close> with nothing
  linked.
\<close>

theorem load_accepts_signature_only:
  "do_load sample_env never_set ''SugaR.exp'' new_ExperienceData
     [''SugaR.exp'' \<mapsto> ExperienceSignature] = (Inr 0, new_ExperienceData)"
  by (simp add: do_load_def sample_env_def ExperienceSignature_def
      ExperienceSignatureLength_def new_ExperienceData_def never_set_def)

lemma do_load_accepted:
  assumes target: "fs (map_path E fn) = Some bytes"
    and small: "length bytes < 2 ^ 64"
    and ok: "fst (do_load E flag fn st fs) = Inr d"
  shows "(\<exists>k. length bytes = length ExperienceSignature + k * unat (sizeof_ExpEntry E)) \<and>
         take (length ExperienceSignature) bytes = ExperienceSignature"
proof -
  define inSize :: "64 word" where "inSize = of_nat (length bytes)"
  have a: "inSize \<noteq> 0"
    using ok target by (auto simp: do_load_def Let_def inSize_def)
  have b: "(inSize - 5) div sizeof_ExpEntry E * sizeof_ExpEntry E = inSize - 5"
  proof (rule ccontr)
    assume "\<not> ?thesis"
    then have "do_load E flag fn st fs = (Inl Corrupt, st)"
      using target a by (simp add: do_load_def Let_def inSize_def sig_len_word)
    then show False using ok by simp
  qed
  have m: "malloc_ok E ExperienceSignatureLength"
  proof (rule ccontr)
    assume "\<not> ?thesis"
    then have "do_load E flag fn st fs = (Inl AllocationFailure, st)"
      using target a b by (simp add: do_load_def Let_def inSize_def sig_len_word)
    then show False using ok by simp
  qed
  have c: "5 \<le> length bytes"
  proof (rule ccontr)
    assume "\<not> ?thesis"
    then have "do_load E flag fn st fs = (Inl ReadFailure, st)"
      using target a b m by (simp add: do_load_def Let_def inSize_def sig_len_word)
    then show False using ok by simp
  qed
  have d: "take 5 bytes = ExperienceSignature"
  proof (rule ccontr)
    assume "\<not> ?thesis"
    then have "do_load E flag fn st fs = (Inl SignatureMismatch, st)"
      using target a b c m by (simp add: do_load_def Let_def inSize_def sig_len_word)
    then show False using ok by simp
  qed
  have "unat (inSize - 5) = length bytes - 5"
    unfolding inSize_def using c small by (rule payload_size)
  then have "(length bytes - 5) mod unat (sizeof_ExpEntry E) = 0"
    using b by (simp add: word_div_mult_eq_iff)
  then obtain k where "length bytes - 5 = unat (sizeof_ExpEntry E) * k"
    by (auto simp: mod_eq_0_iff_dvd)
  then have "length bytes = 5 + k * unat (sizeof_ExpEntry E)"
    using c by (simp add: mult.commute)
  then show ?thesis using d by (auto simp: sig_len)
qed

text \<open>
  Claim C4, amended. A file of no bytes is rejected as empty with nothing loaded. A
  file that is exactly the signature is accepted, provided the two allocations succeed
  and the abort flag is not set: the load succeeds with no duplicate and the store as it
  was. Every file that is accepted has the signature as its first bytes and a length of
  the signature length plus a multiple of the record size.
\<close>

theorem load_zero_records:
  "(fs (map_path E fn) = Some [] \<longrightarrow> do_load E flag fn st fs = (Inl Empty, st)) \<and>
   (fs (map_path E fn) = Some ExperienceSignature \<and> malloc_ok E ExperienceSignatureLength \<and>
    malloc_ok E 0 \<and> \<not> flag 0 \<longrightarrow> do_load E flag fn st fs = (Inr 0, st)) \<and>
   (fs (map_path E fn) = Some bytes \<and> length bytes < 2 ^ 64 \<and>
    fst (do_load E flag fn st fs) = Inr d \<longrightarrow>
      (\<exists>k. length bytes = length ExperienceSignature + k * unat (sizeof_ExpEntry E)) \<and>
      take (length ExperienceSignature) bytes = ExperienceSignature)"
proof (intro conjI impI)
  assume "fs (map_path E fn) = Some []"
  then show "do_load E flag fn st fs = (Inl Empty, st)"
    by (simp add: do_load_def)
next
  assume "fs (map_path E fn) = Some ExperienceSignature \<and> malloc_ok E ExperienceSignatureLength \<and>
    malloc_ok E 0 \<and> \<not> flag 0"
  then show "do_load E flag fn st fs = (Inr 0, st)"
    by (simp add: do_load_def sig_len_word sig_len)
next
  assume "fs (map_path E fn) = Some bytes \<and> length bytes < 2 ^ 64 \<and>
    fst (do_load E flag fn st fs) = Inr d"
  then show "\<exists>k. length bytes = length ExperienceSignature + k * unat (sizeof_ExpEntry E)"
    using do_load_accepted by blast
next
  assume "fs (map_path E fn) = Some bytes \<and> length bytes < 2 ^ 64 \<and>
    fst (do_load E flag fn st fs) = Inr d"
  then show "take (length ExperienceSignature) bytes = ExperienceSignature"
    using do_load_accepted by blast
qed

theorem load_zero_records_witness:
  "do_load sample_env never_set ''SugaR.exp'' new_ExperienceData [''SugaR.exp'' \<mapsto> []] =
     (Inl Empty, new_ExperienceData) \<and>
   do_load sample_env never_set ''SugaR.exp'' new_ExperienceData
     [''SugaR.exp'' \<mapsto> ExperienceSignature] = (Inr 0, new_ExperienceData) \<and>
   (\<exists>k. length ExperienceSignature = length ExperienceSignature + k * unat (sizeof_ExpEntry sample_env))"
  using load_zero_records [of "[''SugaR.exp'' \<mapsto> []]" sample_env "''SugaR.exp''"
      never_set new_ExperienceData "[]" 0]
    load_zero_records [of "[''SugaR.exp'' \<mapsto> ExperienceSignature]" sample_env "''SugaR.exp''"
      never_set new_ExperienceData ExperienceSignature 0]
  by (simp add: sample_env_def never_set_def sig_len)

section \<open>Properties of a cancelled load\<close>

lemma load_loop_abort_at:
  assumes codec: "\<forall>r\<in>set recs. from_bytes E (to_bytes E r) = r \<and>
             length (to_bytes E r) = unat (sizeof_ExpEntry E)"
    and n: "n \<le> length recs"
  shows "\<exists>d'. load_loop E (\<lambda>i. n \<le> i) (length recs) 0 (concat (map (to_bytes E) recs)) m 0 =
           (None, link_all (entry_compare E) m (take n recs), d', min (Suc n) (length recs))"
proof (cases "n < length recs")
  case True
  define pre where "pre = take n recs"
  define post where "post = drop n recs"
  have recs: "recs = pre @ post" by (simp add: pre_def post_def)
  have lp: "length pre = n" using n by (simp add: pre_def)
  have "length post = Suc (length recs - Suc n)" using True by (simp add: post_def)
  then obtain k where k: "length post = Suc k" by blast
  have c: "\<forall>r\<in>set pre. from_bytes E (to_bytes E r) = r \<and>
             length (to_bytes E r) = unat (sizeof_ExpEntry E)"
    using codec by (auto simp: pre_def dest: in_set_takeD)
  have "\<exists>d'. load_loop E (\<lambda>i. n \<le> i) (length pre + Suc k) 0
            (concat (map (to_bytes E) pre) @ concat (map (to_bytes E) post)) m 0 =
          (None, link_all (entry_compare E) m pre, d', Suc (0 + length pre))"
    using c by (rule load_loop_abort) (auto simp: lp)
  then show ?thesis
    using True k lp by (simp add: recs min_def)
next
  case False
  then have n': "n = length recs" using n by simp
  have "\<exists>d'. load_loop E (\<lambda>i. n \<le> i) (length recs) 0
            (concat (map (to_bytes E) recs) @ []) m 0 =
          (None, link_all (entry_compare E) m recs, d', 0 + length recs)"
    using codec by (rule load_loop_all) (auto simp: n')
  then show ?thesis by (simp add: n')
qed

text \<open>
  Claim C7. The worker reads the abort flag once before each record. Let the flag be
  set from its read number \<open>n\<close> on, in a load of a well-formed file of at least \<open>n\<close>
  records: the loop reads the flag \<open>n + 1\<close> times (once for each of the \<open>n\<close> records
  it links and once more to see the flag set; \<open>n\<close> times when the file has just
  \<open>n\<close> records and the flag is seen by the test after the loop), the load returns
  \<open>false\<close>, and the map holds the first \<open>n\<close> records of the file, linked in file
  order, on top of what it held before.
\<close>

theorem load_abort_keeps_linked:
  assumes "fs (map_path E fn) = Some (ExperienceSignature @ concat (map (to_bytes E) recs))"
    and "\<forall>r\<in>set recs. from_bytes E (to_bytes E r) = r \<and>
           length (to_bytes E r) = unat (sizeof_ExpEntry E)"
    and "sizeof_ExpEntry E \<noteq> 0"
    and "5 + length recs * unat (sizeof_ExpEntry E) < 2 ^ 64"
    and "malloc_ok E ExperienceSignatureLength"
    and "malloc_ok E (of_nat (length recs) * sizeof_ExpEntryEx E)"
    and "n \<le> length recs"
  shows "do_load E (\<lambda>i. n \<le> i) fn st fs =
           (Inl Aborted, st\<lparr>mainExp := link_all (entry_compare E) (mainExp st) (take n recs)\<rparr>) \<and>
         snd (snd (snd (load_loop E (\<lambda>i. n \<le> i) (length recs) 0
           (concat (map (to_bytes E) recs)) (mainExp st) 0))) = min (Suc n) (length recs)"
proof -
  have len: "\<forall>r\<in>set recs. length (to_bytes E r) = unat (sizeof_ExpEntry E)"
    using assms(2) by simp
  obtain d' where l: "load_loop E (\<lambda>i. n \<le> i) (length recs) 0
      (concat (map (to_bytes E) recs)) (mainExp st) 0 =
      (None, link_all (entry_compare E) (mainExp st) (take n recs), d', min (Suc n) (length recs))"
    using load_loop_abort_at [OF assms(2) assms(7)] by blast
  have m: "n \<le> min (Suc n) (length recs)" using assms(7) by simp
  have "do_load E (\<lambda>i. n \<le> i) fn st fs =
     (case load_loop E (\<lambda>i. n \<le> i) (length recs) 0 (concat (map (to_bytes E) recs))
             (mainExp st) 0 of
        (Some err, m, dup, reads) \<Rightarrow> (Inl err, st\<lparr>mainExp := m\<rparr>)
      | (None, m, dup, reads) \<Rightarrow>
          if n \<le> reads then (Inl Aborted, st\<lparr>mainExp := m\<rparr>)
          else (Inr dup, st\<lparr>mainExp := m\<rparr>))"
    using assms(1) len assms(3) assms(4) assms(5) assms(6) by (rule do_load_valid)
  then show ?thesis
    using l m by simp
qed

theorem load_abort_keeps_linked_witness:
  "do_load sample_env (\<lambda>i. 1 \<le> i) ''SugaR.exp'' new_ExperienceData
     [''SugaR.exp'' \<mapsto> ExperienceSignature @ concat (map (to_bytes sample_env)
        [\<lparr>key = 1, move = 1, val = 30, depth = 10\<rparr>,
         \<lparr>key = 2, move = 5, val = 20, depth = 12\<rparr>])] =
   (Inl Aborted,
    new_ExperienceData\<lparr>mainExp := [(1, [\<lparr>key = 1, move = 1, val = 30, depth = 10\<rparr>])]\<rparr>)"
  using load_abort_keeps_linked [of "[''SugaR.exp'' \<mapsto> ExperienceSignature @
        concat (map (to_bytes sample_env)
        [\<lparr>key = 1, move = 1, val = 30, depth = 10\<rparr>,
         \<lparr>key = 2, move = 5, val = 20, depth = 12\<rparr>])]" sample_env "''SugaR.exp''"
      "[\<lparr>key = 1, move = 1, val = 30, depth = 10\<rparr>,
         \<lparr>key = 2, move = 5, val = 20, depth = 12\<rparr>]" 1 new_ExperienceData]
  by (simp add: sample_env_def codec_defs link_entry_def new_ExperienceData_def)

section \<open>Properties of linking the records of a chain again\<close>



















section \<open>Properties of saving\<close>




lemma stream_write_bad: "\<not> good out \<Longrightarrow> stream_write E out bs = out"
  by (simp add: stream_write_def)

lemma save_chain_bad: "\<not> good out \<Longrightarrow> fst (save_chain E out n c) = out"
  by (induction c arbitrary: n) (simp_all add: stream_write_bad)

lemma save_all_bad: "\<not> good out \<Longrightarrow> fst (save_all E out n k m) = out"
proof (induction m arbitrary: n k)
  case Nil
  then show ?case by simp
next
  case (Cons x m)
  obtain out' n' where sc: "save_chain E out n (snd x) = (out', n')"
    by (cases "save_chain E out n (snd x)") auto
  have "out' = out" using save_chain_bad [OF Cons.prems, of E n "snd x"] sc by simp
  then show ?case using Cons sc by simp
qed

lemma save_new_bad:
  assumes "\<not> good out" and "Some e \<in> set es" and "MIN_EXP_DEPTH E \<le> depth e"
  shows "save_new E out n es = (False, out, n)"
  using assms
proof (induction es)
  case Nil
  then show ?case by simp
next
  case (Cons x es)
  show ?case
  proof (cases x)
    case None
    then show ?thesis using Cons by simp
  next
    case (Some y)
    show ?thesis
    proof (cases "depth y < MIN_EXP_DEPTH E")
      case True
      then have "y \<noteq> e" using Cons.prems(3) by auto
      then show ?thesis using Cons Some True by simp
    next
      case False
      then show ?thesis using Cons.prems(1) Some by (simp add: stream_write_bad)
    qed
  qed
qed

lemma do_save_unfold:
  assumes "open_out_ok E (map_path E fn)"
    and "out0 = \<lparr>on_disk = (case fs (map_path E fn) of None \<Rightarrow> [] | Some c \<Rightarrow> c),
                  buffered = [], good = True, quota = q\<rparr>"
    and "len = (of_nat (length (on_disk out0)) :: 64 word)"
    and "out1 = (if len = 0 then stream_write E out0 ExperienceSignature else out0)"
    and "out2 = (if saveAll then fst (save_all E (stream_seekp out1) 0 0 (mainExp st))
                 else stream_seekp out1)"
    and "save_new E out2 0 (newPvExp st) = (ok3, out3, c3)"
    and "save_new E out3 0 (newMultiPvExp st) = (ok4, out4, c4)"
  shows "do_save E q fn saveAll st fs =
      (if len = 0 \<and> \<not> good out1 then (False, st, fs(map_path E fn \<mapsto> stream_close out1))
       else if \<not> ok3 then (False, st, fs(map_path E fn \<mapsto> stream_close out3))
       else if \<not> ok4 then (False, st, fs(map_path E fn \<mapsto> stream_close out4))
       else (True, clear_new_exp st, fs(map_path E fn \<mapsto> stream_close out4)))"
  using assms(1,6,7)
  unfolding do_save_def Let_def assms(5) assms(4) assms(3) assms(2)
  by (simp split del: if_split cong: if_cong)

text \<open>
  A save to a new file when no write to the file succeeds: the signature goes into the
  buffer, the flush of \<open>out.seekp\<close> fails, and the stream is not good when the first
  pending entry of the minimum depth or more is written. \<open>_save\<close> returns \<open>false\<close>
  with the store as it was and leaves an empty file.
\<close>

lemma do_save_no_write_succeeds:
  assumes opn: "open_out_ok E (map_path E fn)"
    and fresh: "fs (map_path E fn) = None"
    and fits: "length ExperienceSignature \<le> stream_buffer_size E"
    and pending: "Some e \<in> set (newPvExp st)" "MIN_EXP_DEPTH E \<le> depth e"
  shows "do_save E 0 fn saveAll st fs = (False, st, fs(map_path E fn \<mapsto> []))"
proof -
  define out0 :: ostream where
    "out0 = \<lparr>on_disk = (case fs (map_path E fn) of None \<Rightarrow> [] | Some c \<Rightarrow> c),
             buffered = [], good = True, quota = 0\<rparr>"
  define len :: "64 word" where "len = of_nat (length (on_disk out0))"
  define out1 where "out1 = (if len = 0 then stream_write E out0 ExperienceSignature else out0)"
  define out2 where "out2 = (if saveAll then fst (save_all E (stream_seekp out1) 0 0 (mainExp st))
                 else stream_seekp out1)"
  have l0: "len = 0" using fresh by (simp add: len_def out0_def)
  have o1: "out1 = \<lparr>on_disk = [], buffered = ExperienceSignature, good = True, quota = 0\<rparr>"
    using fresh fits by (simp add: out1_def l0 out0_def stream_write_def)
  have sk: "stream_seekp out1 = \<lparr>on_disk = [], buffered = [], good = False, quota = 0\<rparr>"
    by (simp add: o1 stream_seekp_def stream_flush_def file_write_def ExperienceSignature_def)
  have "out2 = stream_seekp out1"
    by (simp add: out2_def save_all_bad sk)
  then have o2: "out2 = \<lparr>on_disk = [], buffered = [], good = False, quota = 0\<rparr>"
    by (simp add: sk)
  have s3: "save_new E out2 0 (newPvExp st) = (False, out2, 0)"
    using _ pending by (rule save_new_bad) (simp add: o2)
  obtain ok4 out4 c4 where s4: "save_new E out2 0 (newMultiPvExp st) = (ok4, out4, c4)"
    by (cases "save_new E out2 0 (newMultiPvExp st)") auto
  have "do_save E 0 fn saveAll st fs =
      (if len = 0 \<and> \<not> good out1 then (False, st, fs(map_path E fn \<mapsto> stream_close out1))
       else if \<not> False then (False, st, fs(map_path E fn \<mapsto> stream_close out2))
       else if \<not> ok4 then (False, st, fs(map_path E fn \<mapsto> stream_close out4))
       else (True, clear_new_exp st, fs(map_path E fn \<mapsto> stream_close out4)))"
    using opn out0_def len_def out1_def out2_def s3 s4 by (rule do_save_unfold)
  then show ?thesis
    by (simp add: o1 o2 stream_close_def stream_flush_def)
qed

text \<open>
  Claim C5, as stated: once a save has reached the pending entries, both buffers are
  cleared whether or not a write fails. On the sample platform, save 410 pending
  entries, more than the stream buffer holds, to a new file on a device that takes no
  write: a write of a pending entry is seen to fail, \<open>_save\<close> returns \<open>false\<close> at
  once and the buffer keeps its 410 entries.
\<close>

theorem do_save_keeps_pending_on_failure:
  "do_save sample_env 0 ''SugaR.exp'' False
     (new_ExperienceData\<lparr>newPvExp :=
        replicate 410 (Some \<lparr>key = 1, move = 1, val = 30, depth = 10\<rparr>)\<rparr>) Map.empty =
   (False,
    new_ExperienceData\<lparr>newPvExp :=
        replicate 410 (Some \<lparr>key = 1, move = 1, val = 30, depth = 10\<rparr>)\<rparr>,
    [''SugaR.exp'' \<mapsto> []])"
  using do_save_no_write_succeeds [of sample_env "''SugaR.exp''" Map.empty
      "\<lparr>key = 1, move = 1, val = 30, depth = 10\<rparr>"
      "new_ExperienceData\<lparr>newPvExp :=
        replicate 410 (Some \<lparr>key = 1, move = 1, val = 30, depth = 10\<rparr>)\<rparr>" False]
  by (simp add: sample_env_def sig_len new_ExperienceData_def)

text \<open>
  Claim C5, amended. The pending buffers are cleared exactly when \<open>_save\<close> returns
  \<open>true\<close>: then the store is the old one with both buffers empty. When \<open>_save\<close>
  returns \<open>false\<close>, because the file cannot be opened or because the stream is not
  good after the write of the signature or of a pending entry, the store is unchanged
  and both buffers keep their entries.
\<close>

theorem do_save_clears_on_success:
  "fst (snd (do_save E q fn saveAll st fs)) =
     (if fst (do_save E q fn saveAll st fs) then clear_new_exp st else st)"
proof (cases "open_out_ok E (map_path E fn)")
  case False
  then show ?thesis by (simp add: do_save_def)
next
  case True
  define out0 :: ostream where
    "out0 = \<lparr>on_disk = (case fs (map_path E fn) of None \<Rightarrow> [] | Some c \<Rightarrow> c),
             buffered = [], good = True, quota = q\<rparr>"
  define len :: "64 word" where "len = of_nat (length (on_disk out0))"
  define out1 where "out1 = (if len = 0 then stream_write E out0 ExperienceSignature else out0)"
  define out2 where "out2 = (if saveAll then fst (save_all E (stream_seekp out1) 0 0 (mainExp st))
                 else stream_seekp out1)"
  obtain ok3 out3 c3 where s3: "save_new E out2 0 (newPvExp st) = (ok3, out3, c3)"
    by (cases "save_new E out2 0 (newPvExp st)") auto
  obtain ok4 out4 c4 where s4: "save_new E out3 0 (newMultiPvExp st) = (ok4, out4, c4)"
    by (cases "save_new E out3 0 (newMultiPvExp st)") auto
  have "do_save E q fn saveAll st fs =
      (if len = 0 \<and> \<not> good out1 then (False, st, fs(map_path E fn \<mapsto> stream_close out1))
       else if \<not> ok3 then (False, st, fs(map_path E fn \<mapsto> stream_close out3))
       else if \<not> ok4 then (False, st, fs(map_path E fn \<mapsto> stream_close out4))
       else (True, clear_new_exp st, fs(map_path E fn \<mapsto> stream_close out4)))"
    using True out0_def len_def out1_def out2_def s3 s4 by (rule do_save_unfold)
  then show ?thesis by simp
qed

theorem do_save_clears_on_success_witness:
  "fst (snd (do_save sample_env 5 ''SugaR.exp'' False
     (new_ExperienceData\<lparr>newPvExp := [Some \<lparr>key = 1, move = 1, val = 30, depth = 10\<rparr>]\<rparr>)
     Map.empty)) = new_ExperienceData \<and>
   fst (snd (do_save sample_env 0 ''SugaR.exp'' False
     (new_ExperienceData\<lparr>newPvExp :=
        replicate 410 (Some \<lparr>key = 1, move = 1, val = 30, depth = 10\<rparr>)\<rparr>) Map.empty)) =
     new_ExperienceData\<lparr>newPvExp :=
        replicate 410 (Some \<lparr>key = 1, move = 1, val = 30, depth = 10\<rparr>)\<rparr>"
proof -
  have a: "fst (do_save sample_env 5 ''SugaR.exp'' False
     (new_ExperienceData\<lparr>newPvExp := [Some \<lparr>key = 1, move = 1, val = 30, depth = 10\<rparr>]\<rparr>)
     Map.empty)"
    by (simp add: do_save_def Let_def sample_env_def stream_write_def stream_seekp_def
        stream_flush_def file_write_def new_ExperienceData_def ExperienceSignature_def)
  have b: "\<not> fst (do_save sample_env 0 ''SugaR.exp'' False
     (new_ExperienceData\<lparr>newPvExp :=
        replicate 410 (Some \<lparr>key = 1, move = 1, val = 30, depth = 10\<rparr>)\<rparr>) Map.empty)"
    using do_save_no_write_succeeds [of sample_env "''SugaR.exp''" Map.empty
      "\<lparr>key = 1, move = 1, val = 30, depth = 10\<rparr>"
      "new_ExperienceData\<lparr>newPvExp :=
        replicate 410 (Some \<lparr>key = 1, move = 1, val = 30, depth = 10\<rparr>)\<rparr>" False]
    by (simp add: sample_env_def sig_len new_ExperienceData_def)
  show ?thesis
    using a b
      do_save_clears_on_success [of sample_env 5 "''SugaR.exp''" False
        "new_ExperienceData\<lparr>newPvExp := [Some \<lparr>key = 1, move = 1, val = 30, depth = 10\<rparr>]\<rparr>"
        Map.empty]
      do_save_clears_on_success [of sample_env 0 "''SugaR.exp''" False
        "new_ExperienceData\<lparr>newPvExp :=
          replicate 410 (Some \<lparr>key = 1, move = 1, val = 30, depth = 10\<rparr>)\<rparr>" Map.empty]
    by (simp add: clear_new_exp_def new_ExperienceData_def)
qed

text \<open>
  A failed write that the code notices: on a device that takes no write, with pending
  entries to write after the compaction loop, the failure shows at the test of the
  stream in the pending loop, \<open>_save\<close> returns \<open>false\<close> and \<open>save\<close> moves
  the backup back.
\<close>

lemma save_restores_after_noticed_failure:
  "snd (save sample_env never_set 0 ''SugaR.exp'' True
     (new_ExperienceData\<lparr>
        mainExp := [(1, [\<lparr>key = 1, move = 1, val = 30, depth = 10\<rparr>])],
        newPvExp := replicate 410 (Some \<lparr>key = 2, move = 5, val = 20, depth = 12\<rparr>)\<rparr>)
     [''SugaR.exp'' \<mapsto>
        ExperienceSignature @ entry_bytes \<lparr>key = 1, move = 1, val = 30, depth = 10\<rparr>])
     ''SugaR.exp'' =
     Some (ExperienceSignature @ entry_bytes \<lparr>key = 1, move = 1, val = 30, depth = 10\<rparr>) \<and>
   snd (save sample_env never_set 0 ''SugaR.exp'' True
     (new_ExperienceData\<lparr>
        mainExp := [(1, [\<lparr>key = 1, move = 1, val = 30, depth = 10\<rparr>])],
        newPvExp := replicate 410 (Some \<lparr>key = 2, move = 5, val = 20, depth = 12\<rparr>)\<rparr>)
     [''SugaR.exp'' \<mapsto>
        ExperienceSignature @ entry_bytes \<lparr>key = 1, move = 1, val = 30, depth = 10\<rparr>])
     ''SugaR.exp.bak'' = None"
proof -
  let ?st = "new_ExperienceData\<lparr>
        mainExp := [(1, [\<lparr>key = 1, move = 1, val = 30, depth = 10\<rparr>])],
        newPvExp := replicate 410 (Some \<lparr>key = 2, move = 5, val = 20, depth = 12\<rparr>)\<rparr>"
  have d: "do_save sample_env 0 ''SugaR.exp'' True ?st fs1 = (False, ?st, fs1(''SugaR.exp'' \<mapsto> []))"
    if "fs1 ''SugaR.exp'' = None" for fs1
    using that do_save_no_write_succeeds [of sample_env "''SugaR.exp''" fs1
      "\<lparr>key = 2, move = 5, val = 20, depth = 12\<rparr>" ?st True]
    by (simp add: sample_env_def sig_len new_ExperienceData_def)
  have h: "has_new_exp ?st"
    by (simp add: has_new_exp_def new_ExperienceData_def)
  have l: "\<not> loading ?st" by (simp add: new_ExperienceData_def)
  have e: "map_path sample_env x = x" "rename_ok sample_env x y" "remove_ok sample_env x"
    for x y
    by (simp_all add: sample_env_def)
  show ?thesis
    using h l
    by (simp add: save_def Let_def d e wait_for_load_finished_def file_exists_def
        remove_file_def rename_file_def loading_result_def)
qed

text \<open>
  Claim C3. A compacting save over an existing file whose backup was made restores
  the file when any write fails. The code does not notice a failed write of the
  compaction loop: the loop calls \<open>out.write\<close> without testing the stream, and with
  no pending entry nothing tests it afterwards. On the sample platform, with a store of
  one record and a file that takes one write and fails at the second, the signature is
  written by the flush of the seek, the record stays in the stream buffer and is lost
  when the stream is closed, \<open>_save\<close> returns \<open>true\<close>, and \<open>save\<close> leaves
  the new file with the signature alone and the old content under the backup name.
\<close>

theorem save_compaction_failure_unnoticed:
  "snd (save sample_env never_set 1 ''SugaR.exp'' True
     (new_ExperienceData\<lparr>mainExp := [(1, [\<lparr>key = 1, move = 1, val = 30, depth = 10\<rparr>])]\<rparr>)
     [''SugaR.exp'' \<mapsto>
        ExperienceSignature @ entry_bytes \<lparr>key = 1, move = 1, val = 30, depth = 10\<rparr>])
   = [''SugaR.exp.bak'' \<mapsto>
        ExperienceSignature @ entry_bytes \<lparr>key = 1, move = 1, val = 30, depth = 10\<rparr>,
      ''SugaR.exp'' \<mapsto> ExperienceSignature]"
  by (simp add: save_def do_save_def Let_def sample_env_def stream_write_def stream_seekp_def
      stream_flush_def stream_close_def file_write_def new_ExperienceData_def
      ExperienceSignature_def wait_for_load_finished_def has_new_exp_def file_exists_def
      remove_file_def rename_file_def loading_result_def fun_upd_twist codec_defs)

theorem save_compaction_failure_unnoticed_witness:
  "snd (save sample_env never_set 1 ''SugaR.exp'' True
     (new_ExperienceData\<lparr>mainExp := [(1, [\<lparr>key = 1, move = 1, val = 30, depth = 10\<rparr>])]\<rparr>)
     [''SugaR.exp'' \<mapsto>
        ExperienceSignature @ entry_bytes \<lparr>key = 1, move = 1, val = 30, depth = 10\<rparr>])
     ''SugaR.exp'' = Some ''SugaR''"
  using save_compaction_failure_unnoticed by (simp add: ExperienceSignature_def)

section \<open>Properties of the defrag command and of the loader thread\<close>

text \<open>
  Claim C9. The file name of the defrag command may be left out. In the code the
  command with no file name has two arguments, and everything but three arguments is
  answered with the error message and nothing else; with a file name the command goes
  on to load the file.
\<close>

theorem defrag_requires_filename:
  "defrag E q [prog, cmd] fs = (IncorrectCommand, fs) \<and>
   fst (defrag E q [prog, cmd, name] fs) \<noteq> IncorrectCommand"
  by (simp add: defrag_def Let_def split: prod.splits)

lemma run_worker_started:
  "run_worker E flag (start_worker fn st) fs =
     (snd (do_load E flag fn (start_worker fn st) fs))
       \<lparr>loadingResult := load_ok (fst (do_load E flag fn (start_worker fn st) fs)),
        loading := False, loaderThread := None\<rparr>"
  by (simp add: run_worker_def start_worker_def load_ok_def split: prod.splits)

lemma wait_started:
  "wait_for_load_finished E flag (start_worker fn st) fs =
     (load_ok (fst (do_load E flag fn (start_worker fn st) fs)),
      run_worker E flag (start_worker fn st) fs)"
proof -
  have "loading (start_worker fn st)" by (simp add: start_worker_def)
  then show ?thesis
    by (simp add: wait_for_load_finished_def loading_result_def run_worker_started)
qed

lemma wait_finished:
  "wait_for_load_finished E flag (run_worker E flag (start_worker fn st) fs) fs =
     (load_ok (fst (do_load E flag fn (start_worker fn st) fs)),
      run_worker E flag (start_worker fn st) fs)"
  by (simp add: wait_for_load_finished_def loading_result_def run_worker_started)

text \<open>
  Claim C10. \<open>load\<close> with \<open>synchronous = false\<close> returns \<open>true\<close> whatever
  becomes of the load. The result of \<open>_load\<close>, run by the worker on the store as
  \<open>load\<close> has left it, is what \<open>wait_for_load_finished\<close> returns afterwards
  and what \<open>loading_result\<close> gives from then on; \<open>loading_result\<close> read when
  \<open>load\<close> returns gives it only if the worker has finished already, and \<open>false\<close>
  otherwise. Waiting after an asynchronous load leaves
  what a synchronous load leaves.
\<close>

theorem load_asynchronous:
  "fst (load E flag fn False st fs) = True \<and>
   fst (wait_for_load_finished E flag (snd (load E flag fn False st fs)) fs) =
     load_ok (fst (do_load E flag fn
        (start_worker fn (snd (wait_for_load_finished E flag st fs))) fs)) \<and>
   loading_result (snd (load E flag fn False st fs)) =
     (worker_first E \<and> load_ok (fst (do_load E flag fn
        (start_worker fn (snd (wait_for_load_finished E flag st fs))) fs))) \<and>
   loading_result (snd (wait_for_load_finished E flag (snd (load E flag fn False st fs)) fs)) =
     load_ok (fst (do_load E flag fn
        (start_worker fn (snd (wait_for_load_finished E flag st fs))) fs)) \<and>
   wait_for_load_finished E flag (snd (load E flag fn False st fs)) fs =
     load E flag fn True st fs"
proof -
  define st1 where "st1 = snd (wait_for_load_finished E flag st fs)"
  have a: "load E flag fn False st fs =
      (True, if worker_first E then run_worker E flag (start_worker fn st1) fs
             else start_worker fn st1)"
    by (simp add: load_def st1_def Let_def)
  have s: "load E flag fn True st fs = wait_for_load_finished E flag (start_worker fn st1) fs"
    by (simp add: load_def st1_def Let_def)
  have l: "loading_result (run_worker E flag (start_worker fn st1) fs) =
      load_ok (fst (do_load E flag fn (start_worker fn st1) fs))"
    by (simp add: loading_result_def run_worker_started)
  have n: "\<not> loading_result (start_worker fn st1)"
    by (simp add: loading_result_def start_worker_def)
  show ?thesis
    unfolding st1_def [symmetric] a s
    using l n by (simp add: wait_started wait_finished)
qed

theorem load_asynchronous_witness:
  "fst (load sample_env never_set ''SugaR.exp'' False new_ExperienceData
      [''SugaR.exp'' \<mapsto> ExperienceSignature @
         entry_bytes \<lparr>key = 1, move = 1, val = 30, depth = 10\<rparr>]) = True \<and>
   fst (wait_for_load_finished sample_env never_set
     (snd (load sample_env never_set ''SugaR.exp'' False new_ExperienceData
        [''SugaR.exp'' \<mapsto> ExperienceSignature @
           entry_bytes \<lparr>key = 1, move = 1, val = 30, depth = 10\<rparr>]))
     [''SugaR.exp'' \<mapsto> ExperienceSignature @
        entry_bytes \<lparr>key = 1, move = 1, val = 30, depth = 10\<rparr>]) = True \<and>
   loading_result
     (snd (load sample_env never_set ''SugaR.exp'' False new_ExperienceData
        [''SugaR.exp'' \<mapsto> ExperienceSignature @
           entry_bytes \<lparr>key = 1, move = 1, val = 30, depth = 10\<rparr>])) = False \<and>
   loading_result
     (snd (load (sample_env\<lparr>worker_first := True\<rparr>) never_set ''SugaR.exp'' False
        new_ExperienceData
        [''SugaR.exp'' \<mapsto> ExperienceSignature @
           entry_bytes \<lparr>key = 1, move = 1, val = 30, depth = 10\<rparr>])) = True \<and>
   fst (load sample_env never_set ''SugaR.exp'' False new_ExperienceData Map.empty) = True \<and>
   fst (wait_for_load_finished sample_env never_set
     (snd (load sample_env never_set ''SugaR.exp'' False new_ExperienceData Map.empty))
     Map.empty) = False"
proof -
  let ?fs = "[''SugaR.exp'' \<mapsto> ExperienceSignature @
        entry_bytes \<lparr>key = 1, move = 1, val = 30, depth = 10\<rparr>]"
  have w: "snd (wait_for_load_finished E never_set new_ExperienceData fs) = new_ExperienceData"
    for E fs
    by (simp add: wait_for_load_finished_def new_ExperienceData_def Let_def)
  have ok: "load_ok (fst (do_load E never_set ''SugaR.exp''
      (start_worker ''SugaR.exp'' new_ExperienceData) ?fs))"
    if "E = sample_env \<or> E = sample_env\<lparr>worker_first := True\<rparr>" for E
    using that
    by (auto simp: do_load_def sample_env_def ExperienceSignature_def
        ExperienceSignatureLength_def new_ExperienceData_def never_set_def codec_defs
        link_entry_def load_ok_def start_worker_def)
  have no: "\<not> load_ok (fst (do_load sample_env never_set ''SugaR.exp''
      (start_worker ''SugaR.exp'' new_ExperienceData) Map.empty))"
    by (simp add: do_load_def load_ok_def)
  have f: "\<not> worker_first sample_env" "worker_first (sample_env\<lparr>worker_first := True\<rparr>)"
    by (simp_all add: sample_env_def)
  show ?thesis
    using load_asynchronous [of sample_env never_set "''SugaR.exp''" new_ExperienceData ?fs]
      load_asynchronous [of "sample_env\<lparr>worker_first := True\<rparr>" never_set "''SugaR.exp''"
        new_ExperienceData ?fs]
      load_asynchronous [of sample_env never_set "''SugaR.exp''" new_ExperienceData Map.empty]
      ok [of sample_env] ok [of "sample_env\<lparr>worker_first := True\<rparr>"] no f
    unfolding w by blast
qed

section \<open>Properties of a compacting save followed by a load\<close>









text \<open>
  The rank order matters for what follows: a chain that \<open>link_entry\<close> has left out
  of rank order is not reproduced by linking its records again in chain order.
\<close>

lemma relink_unranked_chain:
  "chain_of (link_all compare []
      [\<lparr>key = 1, move = 1, val = 0, depth = 10\<rparr>, \<lparr>key = 1, move = 2, val = 0, depth = 5\<rparr>,
       \<lparr>key = 1, move = 3, val = 0, depth = 7\<rparr>, \<lparr>key = 1, move = 4, val = 0, depth = 6\<rparr>]) 1 =
     [\<lparr>key = 1, move = 1, val = 0, depth = 10\<rparr>, \<lparr>key = 1, move = 2, val = 0, depth = 5\<rparr>,
      \<lparr>key = 1, move = 4, val = 0, depth = 6\<rparr>, \<lparr>key = 1, move = 3, val = 0, depth = 7\<rparr>] \<and>
   chain_of (link_all compare []
      [\<lparr>key = 1, move = 1, val = 0, depth = 10\<rparr>, \<lparr>key = 1, move = 2, val = 0, depth = 5\<rparr>,
       \<lparr>key = 1, move = 4, val = 0, depth = 6\<rparr>, \<lparr>key = 1, move = 3, val = 0, depth = 7\<rparr>]) 1 =
     [\<lparr>key = 1, move = 1, val = 0, depth = 10\<rparr>, \<lparr>key = 1, move = 2, val = 0, depth = 5\<rparr>,
      \<lparr>key = 1, move = 3, val = 0, depth = 7\<rparr>, \<lparr>key = 1, move = 4, val = 0, depth = 6\<rparr>]"
  by (simp add: link_entry_def link_chain_def chain_of_def probe_def compare_def)







end
